theory Spec2Isabelle
  imports Complex_Main "HOL-Library.Word" "HOL-Library.Multiset"
begin

unbundle bit_operations_syntax

section \<open>Go values used by the program\<close>

text \<open>
  Go's \<open>int64\<close> is a 64-bit word: \<open>+\<close> wraps around, and the comparisons of the
  source are the signed ones (\<open><s\<close>, \<open>\<le>s\<close>). Values of Go's \<open>int\<close> that
  count elements of a slice (\<open>len(logs)\<close>, \<open>Count++\<close>) are bounded by the length of that
  slice, which itself fits an \<open>int\<close>; they cannot wrap and are modelled as \<open>int\<close>.
  A \<open>float64\<close> is modelled by the real number it approximates, so rounding is not
  represented.
\<close>

type_synonym int64 = "64 word"

text \<open>
  A \<open>time.Time\<close> is an instant together with a location. The instant is counted in
  nanoseconds from Go's zero time, January 1 of year 1, 00:00:00 UTC; the location is
  represented by its offset from UTC in seconds (a fixed zone).
\<close>

record Time =
  instant :: int
  offset :: int

text \<open>The zero value of \<open>time.Time\<close>, as in \<open>var lastUpdated time.Time\<close>.\<close>

definition zeroTime :: Time where
  "zeroTime = \<lparr>instant = 0, offset = 0\<rparr>"

text \<open>\<open>t.After(u)\<close> compares instants only.\<close>

definition After :: "Time \<Rightarrow> Time \<Rightarrow> bool" where
  "After t u \<longleftrightarrow> instant u < instant t"

text \<open>Durations are nanosecond counts: \<open>time.Second\<close> and \<open>time.Hour\<close>.\<close>

definition Second :: int where
  "Second = 1000000000"

definition Hour :: int where
  "Hour = 3600 * Second"

text \<open>
  \<open>t.Truncate(d)\<close> rounds the instant down to a multiple of \<open>d\<close> since the zero time
  and keeps the location. It works on absolute time, not on the wall clock of the
  location.
\<close>

definition Truncate :: "Time \<Rightarrow> int \<Rightarrow> Time" where
  "Truncate t d = (if d \<le> 0 then t else t\<lparr>instant := instant t - instant t mod d\<rparr>)"

text \<open>Go's integer division truncates towards zero.\<close>

definition go_quot :: "int \<Rightarrow> int \<Rightarrow> int" where
  "go_quot a b = sgn a * sgn b * (\<bar>a\<bar> div \<bar>b\<bar>)"

fun digits :: "nat \<Rightarrow> string" where
  "digits n =
     (if n < 10 then [''0123456789'' ! n]
      else digits (n div 10) @ [''0123456789'' ! (n mod 10)])"

declare digits.simps [simp del]

text \<open>\<open>appendInt\<close> of package time: decimal, zero-padded to \<open>width\<close>, sign first.\<close>

definition appendInt :: "int \<Rightarrow> nat \<Rightarrow> string" where
  "appendInt x width =
     (let ds = digits (nat \<bar>x\<bar>)
      in (if x < 0 then ''-'' else '''') @ replicate (width - length ds) CHR ''0'' @ ds)"

text \<open>
  Year, month and day of the proleptic Gregorian calendar for a day number counted from
  January 1 of year 1 (day 0), with astronomical year numbering as Go prints it.
\<close>

definition civil_date :: "int \<Rightarrow> int \<times> int \<times> int" where
  "civil_date days =
     (let z = days + 306;
          era = z div 146097;
          doe = z mod 146097;
          yoe = (doe - doe div 1460 + doe div 36524 - doe div 146096) div 365;
          doy = doe - (365 * yoe + yoe div 4 - yoe div 100);
          mp = (5 * doy + 2) div 153;
          d = doy - (153 * mp + 2) div 5 + 1;
          m = (if mp < 10 then mp + 3 else mp - 9);
          y = yoe + era * 400 + (if m \<le> 2 then 1 else 0)
      in (y, m, d))"

text \<open>
  \<open>t.Format(time.RFC3339)\<close>, layout \<open>2006-01-02T15:04:05Z07:00\<close>: the wall clock of
  the location to the second, then \<open>Z\<close> for offset zero and \<open>+hh:mm\<close> or \<open>-hh:mm\<close>
  otherwise.
\<close>

definition Format_RFC3339 :: "Time \<Rightarrow> string" where
  "Format_RFC3339 t =
     (let wall = instant t div Second + offset t;
          (year, month, day) = civil_date (wall div 86400);
          secs = wall mod 86400;
          zone = go_quot (offset t) 60
      in appendInt year 4 @ ''-'' @ appendInt month 2 @ ''-'' @ appendInt day 2 @ ''T''
         @ appendInt (secs div 3600) 2 @ '':'' @ appendInt (secs mod 3600 div 60) 2 @ '':''
         @ appendInt (secs mod 60) 2
         @ (if offset t = 0 then ''Z''
            else (if zone < 0 then ''-'' else ''+'')
                 @ appendInt (\<bar>zone\<bar> div 60) 2 @ '':'' @ appendInt (\<bar>zone\<bar> mod 60) 2))"

text \<open>A run-time panic of Go; the only one the analytics code could raise.\<close>

datatype panic = IndexOutOfRange

text \<open>Indexing a slice: \<open>xs[i]\<close> panics out of range.\<close>

definition index :: "'a list \<Rightarrow> nat \<Rightarrow> panic + 'a" where
  "index xs i = (if i < length xs then Inr (xs ! i) else Inl IndexOutOfRange)"

section \<open>Data model\<close>

text \<open>\<open>TimeSeriesPoint\<close>, \<open>SizeBreakdown\<close> and \<open>LogSizeStats\<close> of package handlers.\<close>

record TimeSeriesPoint =
  Timestamp :: string
  Count :: int
  TotalSize :: int64

record SizeBreakdown =
  Range' :: string
  Count :: int
  Percentage :: real

record LogSizeStats =
  TotalRecords :: int
  TotalSize :: int64
  AverageSize :: real
  MinSize :: int64
  MaxSize :: int64
  LastUpdated :: string

text \<open>\<open>LogSize\<close> of package database: one row of table \<open>log_sizes\<close>.\<close>

record LogSize =
  ID :: int
  Timestamp :: Time
  Filesize :: int64

section \<open>The store (package database)\<close>

text \<open>
  The controller holds a handle to an SQLite database. The model keeps what the SQL
  statements of the source read and write: the rows of table \<open>log_sizes\<close>, the
  \<open>AUTOINCREMENT\<close> counter of its primary key (the largest id ever assigned), and
  whether the handle has been closed.
\<close>

record SQLiteController =
  log_sizes :: "LogSize list"
  sqlite_sequence :: int
  closed :: bool

datatype error = ErrDatabaseClosed | ErrSQLiteFull

text \<open>\<open>NewSQLiteController\<close> on a path where no database exists yet.\<close>

definition NewSQLiteController :: SQLiteController where
  "NewSQLiteController = \<lparr>log_sizes = [], sqlite_sequence = 0, closed = False\<rparr>"

text \<open>
  \<open>INSERT INTO log_sizes (timestamp, filesize) VALUES (?, ?)\<close> with \<open>time.Now()\<close>
  and the argument. The id is one more than the largest id ever assigned; the insert
  fails once the largest 64-bit id has been used, and on a closed handle. The argument
  \<open>now\<close> is the value of \<open>time.Now()\<close>. The size is stored as given.
\<close>

definition InsertLogSize :: "Time \<Rightarrow> int64 \<Rightarrow> SQLiteController \<Rightarrow> error + SQLiteController" where
  "InsertLogSize now filesize c =
     (if closed c then Inl ErrDatabaseClosed
      else if 2 ^ 63 - 1 \<le> sqlite_sequence c then Inl ErrSQLiteFull
      else Inr (c\<lparr>log_sizes :=
                     log_sizes c @
                       [\<lparr>ID = sqlite_sequence c + 1, Timestamp = now, Filesize = filesize\<rparr>],
                   sqlite_sequence := sqlite_sequence c + 1\<rparr>))"


text \<open>\<open>SELECT id, timestamp, filesize FROM log_sizes ORDER BY id\<close>.\<close>

definition GetAll :: "SQLiteController \<Rightarrow> error + LogSize list" where
  "GetAll c =
     (if closed c then Inl ErrDatabaseClosed
      else Inr (sort_key ID (log_sizes c)))"

definition Close :: "SQLiteController \<Rightarrow> SQLiteController" where
  "Close c = c\<lparr>closed := True\<rparr>"

text \<open>Insert calls issued one at a time, each with its clock reading; the first error stops.\<close>

fun inserts :: "(Time \<times> int64) list \<Rightarrow> SQLiteController \<Rightarrow> error + SQLiteController" where
  "inserts [] c = Inr c"
| "inserts ((now, filesize) # rest) c =
     (case InsertLogSize now filesize c of
        Inl e \<Rightarrow> Inl e
      | Inr c' \<Rightarrow> inserts rest c')"

text \<open>
  What every database reached through the controller satisfies: ids ascend strictly in
  table order and none exceeds the counter.
\<close>

definition db_invariant :: "SQLiteController \<Rightarrow> bool" where
  "db_invariant c \<longleftrightarrow>
     sorted_wrt (<) (map ID (log_sizes c)) \<and> list_all (\<lambda>l. ID l \<le> sqlite_sequence c) (log_sizes c)"

section \<open>Analytics (package handlers)\<close>

subsection \<open>calculateStats\<close>

text \<open>
  The loop of \<open>calculateStats\<close> over \<open>(total, min, max, lastUpdated)\<close>.
\<close>

fun stats_loop :: "LogSize list \<Rightarrow> int64 \<times> int64 \<times> int64 \<times> Time \<Rightarrow> int64 \<times> int64 \<times> int64 \<times> Time" where
  "stats_loop [] st = st"
| "stats_loop (l # logs) (tot, mn, mx, lastUpdated) =
     stats_loop logs
       (tot + Filesize l,
        (if Filesize l <s mn then Filesize l else mn),
        (if mx <s Filesize l then Filesize l else mx),
        (if After (Timestamp l) lastUpdated then Timestamp l else lastUpdated))"

definition calculateStats :: "LogSize list \<Rightarrow> panic + LogSizeStats" where
  "calculateStats logs =
     (if length logs = 0
      then Inr \<lparr>TotalRecords = 0, TotalSize = 0, AverageSize = 0, MinSize = 0, MaxSize = 0,
                LastUpdated = ''''\<rparr>
      else case index logs 0 of
             Inl e \<Rightarrow> Inl e
           | Inr l0 \<Rightarrow>
               (case stats_loop logs (0, Filesize l0, Filesize l0, zeroTime) of
                  (tot, mn, mx, lastUpdated) \<Rightarrow>
                    Inr \<lparr>TotalRecords = int (length logs),
                         TotalSize = tot,
                         AverageSize = real_of_int (sint tot) / real (length logs),
                         MinSize = mn,
                         MaxSize = mx,
                         LastUpdated = Format_RFC3339 lastUpdated\<rparr>))"

subsection \<open>aggregateByHour\<close>

definition hourKey :: "LogSize \<Rightarrow> string" where
  "hourKey l = Format_RFC3339 (Truncate (Timestamp l) Hour)"

text \<open>
  The first loop: \<open>hourMap\<close> maps a key to \<open>(Count, TotalSize)\<close>; a missing key reads
  as the zero struct.
\<close>

fun fill_hourMap :: "LogSize list \<Rightarrow> (string \<rightharpoonup> int \<times> int64) \<Rightarrow> (string \<rightharpoonup> int \<times> int64)" where
  "fill_hourMap [] hourMap = hourMap"
| "fill_hourMap (l # logs) hourMap =
     (let data = (case hourMap (hourKey l) of None \<Rightarrow> (0, 0) | Some d \<Rightarrow> d)
      in fill_hourMap logs
           (hourMap(hourKey l \<mapsto> (fst data + 1, snd data + Filesize l))))"

text \<open>
  \<open>for k, v := range m\<close> visits every key of the map once, in an order Go leaves
  unspecified. The order is an argument of the model: \<open>map_iteration m ks\<close> says that
  \<open>ks\<close> is such an order.
\<close>

definition map_iteration :: "('k \<rightharpoonup> 'v) \<Rightarrow> 'k list \<Rightarrow> bool" where
  "map_iteration m ks \<longleftrightarrow> distinct ks \<and> set ks = dom m"

definition range_map :: "'k list \<Rightarrow> ('k \<rightharpoonup> 'v) \<Rightarrow> ('k \<times> 'v) list" where
  "range_map ks m = List.map_filter (\<lambda>k. map_option (Pair k) (m k)) ks"

definition aggregateByHour :: "string list \<Rightarrow> LogSize list \<Rightarrow> TimeSeriesPoint list" where
  "aggregateByHour ks logs =
     map (\<lambda>(timestamp, data).
            \<lparr>TimeSeriesPoint.Timestamp = timestamp, TimeSeriesPoint.Count = fst data,
             TimeSeriesPoint.TotalSize = snd data\<rparr>)
         (range_map ks (fill_hourMap logs Map.empty))"

text \<open>
  The hour of the specification: the start of the clock hour that contains the
  timestamp on the wall clock of the timestamp's own offset, at that same offset.
\<close>

definition local_hour_start :: "Time \<Rightarrow> Time" where
  "local_hour_start t =
     t\<lparr>instant := (((instant t div Second + offset t) div 3600) * 3600 - offset t) * Second\<rparr>"

text \<open>The records of an input that fall under one key.\<close>

definition hour_logs :: "string \<Rightarrow> LogSize list \<Rightarrow> LogSize list" where
  "hour_logs k logs = filter (\<lambda>l. hourKey l = k) logs"

text \<open>The bucket reported for a key: its records counted, their sizes added as \<open>int64\<close>.\<close>

definition hour_bucket :: "LogSize list \<Rightarrow> string \<Rightarrow> TimeSeriesPoint" where
  "hour_bucket logs k =
     \<lparr>TimeSeriesPoint.Timestamp = k,
      TimeSeriesPoint.Count = int (length (hour_logs k logs)),
      TimeSeriesPoint.TotalSize = sum_list (map Filesize (hour_logs k logs))\<rparr>"

subsection \<open>calculateSizeBreakdown\<close>

record size_range =
  Name :: string
  Min' :: int64
  Max' :: int64

definition ranges :: "size_range list" where
  "ranges =
    [\<lparr>Name = ''< 1KB'', Min' = 0, Max' = 1024\<rparr>,
     \<lparr>Name = ''1KB - 10KB'', Min' = 1024, Max' = 10 * 1024\<rparr>,
     \<lparr>Name = ''10KB - 100KB'', Min' = 10 * 1024, Max' = 100 * 1024\<rparr>,
     \<lparr>Name = ''100KB - 1MB'', Min' = 100 * 1024, Max' = 1024 * 1024\<rparr>,
     \<lparr>Name = ''1MB - 10MB'', Min' = 1024 * 1024, Max' = 10 * 1024 * 1024\<rparr>,
     \<lparr>Name = ''> 10MB'', Min' = 10 * 1024 * 1024, Max' = drop_bit 1 (NOT 0)\<rparr>]"

text \<open>The test of the inner loop: \<open>log.Filesize >= r.Min && log.Filesize < r.Max\<close>.\<close>

definition in_range :: "size_range \<Rightarrow> int64 \<Rightarrow> bool" where
  "in_range r fs \<longleftrightarrow> Min' r \<le>s fs \<and> fs <s Max' r"

text \<open>The inner loop from index \<open>i\<close> on: the first range that matches is counted.\<close>

fun scan_ranges :: "size_range list \<Rightarrow> nat \<Rightarrow> int64 \<Rightarrow> int list \<Rightarrow> panic + int list" where
  "scan_ranges [] i fs rangeCounts = Inr rangeCounts"
| "scan_ranges (r # rs) i fs rangeCounts =
     (if in_range r fs
      then (if i < length rangeCounts
            then Inr (rangeCounts[i := rangeCounts ! i + 1])
            else Inl IndexOutOfRange)
      else scan_ranges rs (Suc i) fs rangeCounts)"

fun count_ranges :: "LogSize list \<Rightarrow> int list \<Rightarrow> panic + int list" where
  "count_ranges [] rangeCounts = Inr rangeCounts"
| "count_ranges (l # logs) rangeCounts =
     (case scan_ranges ranges 0 (Filesize l) rangeCounts of
        Inl e \<Rightarrow> Inl e
      | Inr rangeCounts' \<Rightarrow> count_ranges logs rangeCounts')"

text \<open>The second loop, which builds the result from index \<open>i\<close> on.\<close>

fun build_breakdown :: "size_range list \<Rightarrow> nat \<Rightarrow> int list \<Rightarrow> int \<Rightarrow> panic + SizeBreakdown list" where
  "build_breakdown [] i rangeCounts tot = Inr []"
| "build_breakdown (r # rs) i rangeCounts tot =
     (if i < length rangeCounts
      then (let percentage =
                  (if tot > 0
                   then real_of_int (rangeCounts ! i) / real_of_int tot * 100
                   else 0)
            in case build_breakdown rs (Suc i) rangeCounts tot of
                 Inl e \<Rightarrow> Inl e
               | Inr result \<Rightarrow>
                   Inr (\<lparr>Range' = Name r, Count = rangeCounts ! i, Percentage = percentage\<rparr>
                        # result))
      else Inl IndexOutOfRange)"

definition calculateSizeBreakdown :: "LogSize list \<Rightarrow> panic + SizeBreakdown list" where
  "calculateSizeBreakdown logs =
     (let rangeCounts = replicate (length ranges) 0;
          tot = int (length logs)
      in case count_ranges logs rangeCounts of
           Inl e \<Rightarrow> Inl e
         | Inr rangeCounts' \<Rightarrow> build_breakdown ranges 0 rangeCounts' tot)"

text \<open>
  The classification the loops compute, stated on its own: the index of the first range
  a size falls in, and the number of records a range receives.
\<close>

fun first_match :: "size_range list \<Rightarrow> int64 \<Rightarrow> nat option" where
  "first_match [] fs = None"
| "first_match (r # rs) fs =
     (if in_range r fs then Some 0 else map_option Suc (first_match rs fs))"

definition bucket_count :: "nat \<Rightarrow> LogSize list \<Rightarrow> int" where
  "bucket_count k logs =
     int (length (filter (\<lambda>l. first_match ranges (Filesize l) = Some k) logs))"

definition percentage_of :: "int \<Rightarrow> int \<Rightarrow> real" where
  "percentage_of c tot = (if tot = 0 then 0 else 100 * real_of_int c / real_of_int tot)"

section \<open>Properties of calculateSizeBreakdown\<close>

lemma sint_mask_63: "sint (mask 63 :: int64) = 9223372036854775807"
  by code_simp

lemma in_range_sint:
  "in_range r fs \<longleftrightarrow> sint (Min' r) \<le> sint fs \<and> sint fs < sint (Max' r)"
  by (simp add: in_range_def word_sle_eq word_sless_alt)

lemma first_match_less: "first_match rs fs = Some k \<Longrightarrow> k < length rs"
  by (induction rs arbitrary: k) (auto split: if_splits)

lemma scan_ranges_first_match:
  "i + length rs \<le> length rc \<Longrightarrow>
   scan_ranges rs i fs rc =
     Inr (case first_match rs fs of None \<Rightarrow> rc | Some k \<Rightarrow> rc[i + k := rc ! (i + k) + 1])"
proof (induction rs arbitrary: i)
  case Nil
  then show ?case by simp
next
  case (Cons r rs)
  show ?case
  proof (cases "in_range r fs")
    case True
    with Cons.prems show ?thesis by simp
  next
    case False
    from Cons.prems have "Suc i + length rs \<le> length rc" by simp
    from Cons.IH [OF this] False show ?thesis
      by (cases "first_match rs fs") simp_all
  qed
qed

lemma first_match_ranges:
  "first_match ranges fs =
     (if sint fs < 0 then None
      else if sint fs < 1024 then Some 0
      else if sint fs < 10240 then Some 1
      else if sint fs < 102400 then Some 2
      else if sint fs < 1048576 then Some 3
      else if sint fs < 10485760 then Some 4
      else if sint fs < 9223372036854775807 then Some 5
      else None)"
  by (simp add: ranges_def in_range_sint sint_mask_63)


lemma bucket_count_Nil: "bucket_count k [] = 0"
  by (simp add: bucket_count_def)

lemma bucket_count_Cons:
  "bucket_count k (l # ls) =
     (if first_match ranges (Filesize l) = Some k then 1 else 0) + bucket_count k ls"
  by (simp add: bucket_count_def)

lemma length_ranges: "length ranges = 6"
  by (simp add: ranges_def)

lemma count_ranges_eq:
  "length rc = length ranges \<Longrightarrow>
   count_ranges logs rc = Inr (map (\<lambda>k. rc ! k + bucket_count k logs) [0..<length ranges])"
proof (induction logs arbitrary: rc)
  case Nil
  have "map (\<lambda>k. rc ! k) [0..<length rc] = rc" by (rule map_nth)
  with Nil show ?case by (simp add: bucket_count_Nil)
next
  case (Cons l ls)
  define rc' where
    "rc' = (case first_match ranges (Filesize l) of
              None \<Rightarrow> rc | Some k \<Rightarrow> rc[k := rc ! k + 1])"
  have scan: "scan_ranges ranges 0 (Filesize l) rc = Inr rc'"
    using scan_ranges_first_match [of 0 ranges rc "Filesize l"] Cons.prems
    by (simp add: rc'_def cong: option.case_cong)
  have len: "length rc' = length ranges"
    using Cons.prems by (simp add: rc'_def split: option.splits)
  have step: "rc' ! k + bucket_count k ls = rc ! k + bucket_count k (l # ls)"
    if "k < length ranges" for k
    using that Cons.prems
    by (auto simp: rc'_def bucket_count_Cons nth_list_update split: option.splits)
  have "count_ranges (l # ls) rc = count_ranges ls rc'"
    by (simp add: scan)
  also have "\<dots> = Inr (map (\<lambda>k. rc' ! k + bucket_count k ls) [0..<length ranges])"
    by (rule Cons.IH [OF len])
  also have "map (\<lambda>k. rc' ! k + bucket_count k ls) [0..<length ranges] =
             map (\<lambda>k. rc ! k + bucket_count k (l # ls)) [0..<length ranges]"
    by (rule map_cong) (simp_all add: step)
  finally show ?case .
qed

lemma build_breakdown_eq:
  "i + length rs \<le> length rc \<Longrightarrow>
   build_breakdown rs i rc tot =
     Inr (map (\<lambda>k. \<lparr>Range' = Name (rs ! k), Count = rc ! (i + k),
                       Percentage = (if tot > 0
                                     then real_of_int (rc ! (i + k)) / real_of_int tot * 100
                                     else 0)\<rparr>)
              [0..<length rs])"
proof (induction rs arbitrary: i)
  case Nil
  then show ?case by simp
next
  case (Cons r rs)
  from Cons.prems have "Suc i + length rs \<le> length rc" by simp
  from Cons.IH [OF this] Cons.prems show ?case
    by (simp add: upt_conv_Cons map_Suc_upt [symmetric] del: upt_Suc)
qed

lemma calculateSizeBreakdown_eq:
  "calculateSizeBreakdown logs =
     Inr (map (\<lambda>k. \<lparr>Range' = Name (ranges ! k), Count = bucket_count k logs,
                       Percentage = percentage_of (bucket_count k logs) (int (length logs))\<rparr>)
              [0..<length ranges])"
proof -
  let ?rc = "map (\<lambda>k. bucket_count k logs) [0..<length ranges]"
  have "count_ranges logs (replicate (length ranges) 0) = Inr ?rc"
  proof -
    have "map (\<lambda>k. replicate (length ranges) (0::int) ! k + bucket_count k logs) [0..<length ranges] = ?rc"
      by (rule map_cong) simp_all
    with count_ranges_eq [of "replicate (length ranges) 0" logs] show ?thesis by simp
  qed
  moreover have "build_breakdown ranges 0 ?rc (int (length logs)) =
      Inr (map (\<lambda>k. \<lparr>Range' = Name (ranges ! k), Count = bucket_count k logs,
                       Percentage = percentage_of (bucket_count k logs) (int (length logs))\<rparr>)
              [0..<length ranges])"
  proof -
    have "0 + length ranges \<le> length ?rc" by simp
    from build_breakdown_eq [OF this, of "int (length logs)"] show ?thesis
      by (auto simp: percentage_of_def intro!: map_cong)
  qed
  ultimately show ?thesis
    by (simp add: calculateSizeBreakdown_def)
qed

lemma upt_6: "[0..<6] = [0, 1, 2, 3, 4, 5]"
  by (simp add: upt_rec)

lemma bucket_sum:
  "bucket_count 0 logs + bucket_count 1 logs + bucket_count 2 logs + bucket_count 3 logs
     + bucket_count 4 logs + bucket_count 5 logs
     + int (length (filter (\<lambda>l. first_match ranges (Filesize l) = None) logs))
   = int (length logs)"
proof (induction logs)
  case Nil
  then show ?case by (simp add: bucket_count_Nil)
next
  case (Cons l ls)
  show ?case
  proof (cases "first_match ranges (Filesize l)")
    case None
    with Cons.IH show ?thesis by (simp add: bucket_count_Cons)
  next
    case (Some k)
    then have "k < 6" using first_match_less [of ranges "Filesize l" k] by (simp add: length_ranges)
    then have "k = 0 \<or> k = 1 \<or> k = 2 \<or> k = 3 \<or> k = 4 \<or> k = 5" by arith
    with Some Cons.IH show ?thesis by (auto simp: bucket_count_Cons)
  qed
qed

lemma first_match_in_range:
  "k < 6 \<Longrightarrow> first_match ranges fs = Some k \<longleftrightarrow> in_range (ranges ! k) fs"
proof -
  assume "k < 6"
  then have "k = 0 \<or> k = 1 \<or> k = 2 \<or> k = 3 \<or> k = 4 \<or> k = 5" by arith
  then show ?thesis
    unfolding first_match_ranges
    by (auto simp: ranges_def in_range_sint sint_mask_63)
qed

lemma bucket_count_in_range:
  "k < 6 \<Longrightarrow>
   bucket_count k logs = int (length (filter (\<lambda>l. in_range (ranges ! k) (Filesize l)) logs))"
  by (simp add: bucket_count_def first_match_in_range)

lemma negative_in_no_range:
  "fs <s 0 \<Longrightarrow> r \<in> set ranges \<Longrightarrow> \<not> in_range r fs"
  by (auto simp: ranges_def in_range_sint word_sless_alt)

lemma negative_first_match: "fs <s 0 \<Longrightarrow> first_match ranges fs = None"
  by (simp add: first_match_ranges word_sless_alt)

lemma calculateSizeBreakdown_six:
  "calculateSizeBreakdown logs =
     Inr (map (\<lambda>k. \<lparr>Range' = Name (ranges ! k), Count = bucket_count k logs,
                       Percentage = percentage_of (bucket_count k logs) (int (length logs))\<rparr>)
              [0, 1, 2, 3, 4, 5])"
  using calculateSizeBreakdown_eq [of logs] by (simp only: length_ranges upt_6)

lemma breakdown_counts_sum:
  "calculateSizeBreakdown logs = Inr bs \<Longrightarrow>
   sum_list (map Count bs)
     = int (length logs) - int (length (filter (\<lambda>l. first_match ranges (Filesize l) = None) logs))"
  using bucket_sum [of logs] by (auto simp: calculateSizeBreakdown_six)

text \<open>
  Where every size is non-negative and below the largest \<open>int64\<close>, every record is
  counted: the six counts sum to the number of records.
\<close>

lemma breakdown_counts_complete:
  assumes "\<forall>l\<in>set logs. 0 \<le> sint (Filesize l) \<and> sint (Filesize l) < 2 ^ 63 - 1"
    and "calculateSizeBreakdown logs = Inr bs"
  shows "sum_list (map Count bs) = int (length logs)"
proof -
  from assms(1) have "filter (\<lambda>l. first_match ranges (Filesize l) = None) logs = []"
    by (auto simp: filter_empty_conv first_match_ranges)
  with breakdown_counts_sum [OF assms(2)] show ?thesis by simp
qed

lemma breakdown_percentages_sum:
  "calculateSizeBreakdown logs = Inr bs \<Longrightarrow>
   sum_list (map Percentage bs) = percentage_of (sum_list (map Count bs)) (int (length logs))"
  by (auto simp: calculateSizeBreakdown_six percentage_of_def add_divide_distrib distrib_left)

text \<open>
  Claim C3, at the input where it fails. A record of size \<open>2^63 - 1\<close>, the largest
  \<open>int64\<close>, is non-negative and at least 10485760, yet no range counts it: the last
  range ends at that value and excludes it. The six counts sum to 0, not to 1.
\<close>

theorem C3_max_int64_in_no_bucket:
  "calculateSizeBreakdown
     [\<lparr>ID = 1, Timestamp = zeroTime, Filesize = 9223372036854775807\<rparr>]
   = Inr [\<lparr>Range' = ''< 1KB'', Count = 0, Percentage = 0\<rparr>,
          \<lparr>Range' = ''1KB - 10KB'', Count = 0, Percentage = 0\<rparr>,
          \<lparr>Range' = ''10KB - 100KB'', Count = 0, Percentage = 0\<rparr>,
          \<lparr>Range' = ''100KB - 1MB'', Count = 0, Percentage = 0\<rparr>,
          \<lparr>Range' = ''1MB - 10MB'', Count = 0, Percentage = 0\<rparr>,
          \<lparr>Range' = ''> 10MB'', Count = 0, Percentage = 0\<rparr>]"
  by (simp add: calculateSizeBreakdown_six bucket_count_def first_match_ranges percentage_of_def)
     (simp add: ranges_def)



text \<open>
  Claim C10. When some record of the input has a negative size, no range test accepts a
  negative record, so it adds to no bucket: the count of every bucket is the number of
  records its range accepts, the six counts sum to less than the number of records, and
  the six percentages sum to less than 100.
\<close>

theorem C10_negative_sizes_are_dropped:
  assumes "\<exists>l\<in>set logs. Filesize l <s 0"
  shows "\<exists>bs. calculateSizeBreakdown logs = Inr bs \<and>
     (\<forall>l\<in>set logs. Filesize l <s 0 \<longrightarrow> (\<forall>r\<in>set ranges. \<not> in_range r (Filesize l))) \<and>
     (\<forall>k<6. Count (bs ! k) =
        int (length (filter (\<lambda>l. in_range (ranges ! k) (Filesize l)) logs))) \<and>
     sum_list (map Count bs) < int (length logs) \<and>
     sum_list (map Percentage bs) < 100"
proof -
  define bs where "bs = map (\<lambda>k. \<lparr>Range' = Name (ranges ! k), Count = bucket_count k logs,
                       Percentage = percentage_of (bucket_count k logs) (int (length logs))\<rparr>)
              [0, 1, 2, 3, 4, 5 :: nat]"
  have bs: "calculateSizeBreakdown logs = Inr bs"
    unfolding bs_def by (rule calculateSizeBreakdown_six)
  have counts: "\<forall>k<6. Count (bs ! k) =
        int (length (filter (\<lambda>l. in_range (ranges ! k) (Filesize l)) logs))"
  proof (intro allI impI)
    fix k :: nat assume k: "k < 6"
    then have "k = 0 \<or> k = 1 \<or> k = 2 \<or> k = 3 \<or> k = 4 \<or> k = 5" by arith
    then have "Count (bs ! k) = bucket_count k logs" by (auto simp: bs_def)
    with k show "Count (bs ! k) =
        int (length (filter (\<lambda>l. in_range (ranges ! k) (Filesize l)) logs))"
      by (simp only: bucket_count_in_range)
  qed
  from assms obtain l where l: "l \<in> set logs" "first_match ranges (Filesize l) = None"
    by (auto simp: negative_first_match)
  then have "0 < length (filter (\<lambda>l. first_match ranges (Filesize l) = None) logs)"
    by (auto simp: filter_empty_conv)
  with breakdown_counts_sum [OF bs] have less: "sum_list (map Count bs) < int (length logs)"
    by simp
  from l have pos: "0 < length logs" by (cases logs) auto
  from less have "real_of_int (sum_list (map Count bs)) < real (length logs)"
    by linarith
  with pos have pct: "sum_list (map Percentage bs) < 100"
    by (simp add: breakdown_percentages_sum [OF bs] percentage_of_def divide_less_eq)
  have neg: "\<forall>l\<in>set logs. Filesize l <s 0 \<longrightarrow> (\<forall>r\<in>set ranges. \<not> in_range r (Filesize l))"
    by (simp add: negative_in_no_range)
  show ?thesis
  proof (intro exI conjI)
    show "calculateSizeBreakdown logs = Inr bs" by (rule bs)
  qed (rule neg counts less pct)+
qed

text \<open>
  A negative size reaches the analytics through the store: two inserts, of sizes 512 and
  \<open>-1\<close>, into a new store, then \<open>GetAll\<close>, then \<open>calculateSizeBreakdown\<close>.
\<close>

theorem C10_negative_sizes_witness:
  "inserts [(zeroTime, 512), (zeroTime, - 1)] NewSQLiteController
     = Inr \<lparr>log_sizes =
              [\<lparr>ID = 1, Timestamp = zeroTime, Filesize = 512\<rparr>,
               \<lparr>ID = 2, Timestamp = zeroTime, Filesize = - 1\<rparr>],
            sqlite_sequence = 2, closed = False\<rparr> \<and>
   GetAll \<lparr>log_sizes =
              [\<lparr>ID = 1, Timestamp = zeroTime, Filesize = 512\<rparr>,
               \<lparr>ID = 2, Timestamp = zeroTime, Filesize = - 1\<rparr>],
            sqlite_sequence = 2, closed = False\<rparr>
     = Inr [\<lparr>ID = 1, Timestamp = zeroTime, Filesize = 512\<rparr>,
            \<lparr>ID = 2, Timestamp = zeroTime, Filesize = - 1\<rparr>] \<and>
   (- 1 :: int64) <s 0 \<and>
   (\<exists>bs. calculateSizeBreakdown
       [\<lparr>ID = 1, Timestamp = zeroTime, Filesize = 512\<rparr>,
        \<lparr>ID = 2, Timestamp = zeroTime, Filesize = - 1\<rparr>] = Inr bs \<and>
     sum_list (map Count bs) < 2 \<and> sum_list (map Percentage bs) < 100) \<and>
   calculateSizeBreakdown
       [\<lparr>ID = 1, Timestamp = zeroTime, Filesize = 512\<rparr>,
        \<lparr>ID = 2, Timestamp = zeroTime, Filesize = - 1\<rparr>]
     = Inr [\<lparr>Range' = ''< 1KB'', Count = 1, Percentage = 50\<rparr>,
            \<lparr>Range' = ''1KB - 10KB'', Count = 0, Percentage = 0\<rparr>,
            \<lparr>Range' = ''10KB - 100KB'', Count = 0, Percentage = 0\<rparr>,
            \<lparr>Range' = ''100KB - 1MB'', Count = 0, Percentage = 0\<rparr>,
            \<lparr>Range' = ''1MB - 10MB'', Count = 0, Percentage = 0\<rparr>,
            \<lparr>Range' = ''> 10MB'', Count = 0, Percentage = 0\<rparr>]"
proof -
  let ?logs = "[\<lparr>ID = 1, Timestamp = zeroTime, Filesize = 512\<rparr>,
                \<lparr>ID = 2, Timestamp = zeroTime, Filesize = - 1\<rparr>]"
  let ?c = "\<lparr>log_sizes = ?logs, sqlite_sequence = 2, closed = False\<rparr>"
  have ins: "inserts [(zeroTime, 512), (zeroTime, - 1)] NewSQLiteController = Inr ?c"
    by (simp add: InsertLogSize_def NewSQLiteController_def)
  have getall: "GetAll ?c = Inr ?logs"
    by (simp add: GetAll_def)
  have neg: "(- 1 :: int64) <s 0" by simp
  then have "\<exists>l\<in>set ?logs. Filesize l <s 0" by simp
  from C10_negative_sizes_are_dropped [OF this] obtain bs
    where "calculateSizeBreakdown ?logs = Inr bs"
      and "sum_list (map Count bs) < int (length ?logs)"
      and "sum_list (map Percentage bs) < 100"
    by (elim exE conjE)
  then have sums: "\<exists>bs. calculateSizeBreakdown ?logs = Inr bs \<and>
     sum_list (map Count bs) < 2 \<and> sum_list (map Percentage bs) < 100"
    by auto
  have val: "calculateSizeBreakdown ?logs
     = Inr [\<lparr>Range' = ''< 1KB'', Count = 1, Percentage = 50\<rparr>,
            \<lparr>Range' = ''1KB - 10KB'', Count = 0, Percentage = 0\<rparr>,
            \<lparr>Range' = ''10KB - 100KB'', Count = 0, Percentage = 0\<rparr>,
            \<lparr>Range' = ''100KB - 1MB'', Count = 0, Percentage = 0\<rparr>,
            \<lparr>Range' = ''1MB - 10MB'', Count = 0, Percentage = 0\<rparr>,
            \<lparr>Range' = ''> 10MB'', Count = 0, Percentage = 0\<rparr>]"
    by (simp add: calculateSizeBreakdown_six bucket_count_def first_match_ranges percentage_of_def)
       (simp add: ranges_def)
  show ?thesis
    by (intro conjI) (rule ins getall neg sums val)+
qed

section \<open>Properties of calculateStats\<close>

lemma stats_loop_folds:
  "stats_loop logs (tot, mn, mx, lu) =
     (tot + sum_list (map Filesize logs),
      foldl (\<lambda>m l. if Filesize l <s m then Filesize l else m) mn logs,
      foldl (\<lambda>m l. if m <s Filesize l then Filesize l else m) mx logs,
      foldl (\<lambda>u l. if After (Timestamp l) u then Timestamp l else u) lu logs)"
  by (induction logs arbitrary: tot mn mx lu) (simp_all add: ac_simps)








lemma calculateStats_eq:
  "logs \<noteq> [] \<Longrightarrow>
   calculateStats logs =
     Inr \<lparr>TotalRecords = int (length logs),
          TotalSize = sum_list (map Filesize logs),
          AverageSize = real_of_int (sint (sum_list (map Filesize logs))) / real (length logs),
          MinSize = foldl (\<lambda>m l. if Filesize l <s m then Filesize l else m) (Filesize (logs ! 0)) logs,
          MaxSize = foldl (\<lambda>m l. if m <s Filesize l then Filesize l else m) (Filesize (logs ! 0)) logs,
          LastUpdated = Format_RFC3339
            (foldl (\<lambda>u l. if After (Timestamp l) u then Timestamp l else u) zeroTime logs)\<rparr>"
  by (simp add: calculateStats_def index_def stats_loop_folds)




section \<open>Properties of aggregateByHour\<close>

lemma hour_logs_Cons:
  "hour_logs k (l # logs) = (if hourKey l = k then l # hour_logs k logs else hour_logs k logs)"
  by (simp add: hour_logs_def)

lemma hour_logs_empty_iff: "hour_logs k logs = [] \<longleftrightarrow> k \<notin> hourKey ` set logs"
  by (auto simp: hour_logs_def filter_empty_conv)

lemma fill_hourMap_lookup:
  "fill_hourMap logs m k =
     (if hour_logs k logs = [] then m k
      else Some (fst (case m k of None \<Rightarrow> (0, 0) | Some d \<Rightarrow> d) + int (length (hour_logs k logs)),
                 snd (case m k of None \<Rightarrow> (0, 0) | Some d \<Rightarrow> d)
                   + sum_list (map Filesize (hour_logs k logs))))"
proof (induction logs arbitrary: m)
  case Nil
  then show ?case by (simp add: hour_logs_def)
next
  case (Cons l logs)
  let ?d = "case m (hourKey l) of None \<Rightarrow> (0, 0) | Some d \<Rightarrow> d"
  let ?m' = "m(hourKey l \<mapsto> (fst ?d + 1, snd ?d + Filesize l))"
  have step: "fill_hourMap (l # logs) m k = fill_hourMap logs ?m' k"
    by (simp add: Let_def)
  show ?case
  proof (cases "hourKey l = k")
    case True
    then have "?m' k = Some (fst ?d + 1, snd ?d + Filesize l)" by simp
    with True show ?thesis
      unfolding step Cons.IH [of ?m'] by (simp add: hour_logs_Cons ac_simps)
  next
    case False
    then have "?m' k = m k" by simp
    with False show ?thesis
      unfolding step Cons.IH [of ?m'] by (simp add: hour_logs_Cons)
  qed
qed

lemma fill_hourMap_empty:
  "fill_hourMap logs Map.empty k =
     (if k \<in> hourKey ` set logs
      then Some (int (length (hour_logs k logs)), sum_list (map Filesize (hour_logs k logs)))
      else None)"
  by (simp add: fill_hourMap_lookup hour_logs_empty_iff)

lemma dom_fill_hourMap: "dom (fill_hourMap logs Map.empty) = hourKey ` set logs"
  by (auto simp: dom_def fill_hourMap_empty)

lemma map_iteration_fill:
  "map_iteration (fill_hourMap logs Map.empty) ks \<longleftrightarrow> distinct ks \<and> set ks = hourKey ` set logs"
  by (simp add: map_iteration_def dom_fill_hourMap)

text \<open>Every input has an iteration order: its keys in order of first appearance, for one.\<close>

lemma map_iteration_exists:
  "map_iteration (fill_hourMap logs Map.empty) (remdups (map hourKey logs))"
  by (simp add: map_iteration_fill)

lemma range_map_eq:
  "set ks \<subseteq> dom m \<Longrightarrow> range_map ks m = map (\<lambda>k. (k, the (m k))) ks"
  by (induction ks) (auto simp: range_map_def map_filter_def)

lemma aggregateByHour_eq:
  assumes "map_iteration (fill_hourMap logs Map.empty) ks"
  shows "aggregateByHour ks logs = map (hour_bucket logs) ks"
proof -
  from assms have sub: "set ks \<subseteq> dom (fill_hourMap logs Map.empty)"
    by (simp add: map_iteration_def)
  have "k \<in> set ks \<Longrightarrow>
        (case (k, the (fill_hourMap logs Map.empty k)) of
           (timestamp, data) \<Rightarrow>
             \<lparr>TimeSeriesPoint.Timestamp = timestamp, TimeSeriesPoint.Count = fst data,
              TimeSeriesPoint.TotalSize = snd data\<rparr>) = hour_bucket logs k" for k
    using assms by (simp add: map_iteration_fill fill_hourMap_empty hour_bucket_def)
  then show ?thesis
    by (simp add: aggregateByHour_def range_map_eq [OF sub])
qed

lemma hour_logs_mset:
  "mset logs' = mset logs \<Longrightarrow> mset (hour_logs k logs') = mset (hour_logs k logs)"
  by (simp add: hour_logs_def)

lemma hour_bucket_mset:
  assumes "mset logs' = mset logs"
  shows "hour_bucket logs' k = hour_bucket logs k"
proof -
  from assms have m: "mset (hour_logs k logs') = mset (hour_logs k logs)"
    by (rule hour_logs_mset)
  then have "length (hour_logs k logs') = length (hour_logs k logs)"
    by (rule mset_eq_length)
  moreover have "sum_list (map Filesize (hour_logs k logs')) = sum_list (map Filesize (hour_logs k logs))"
  proof -
    have "mset (map Filesize (hour_logs k logs')) = mset (map Filesize (hour_logs k logs))"
      using m by simp
    then show ?thesis by (metis sum_mset_sum_list)
  qed
  ultimately show ?thesis by (simp add: hour_bucket_def)
qed

lemma Truncate_Hour:
  "Truncate t Hour = t\<lparr>instant := (instant t div Hour) * Hour\<rparr>"
proof -
  have "instant t - instant t mod Hour = (instant t div Hour) * Hour"
    by (simp add: minus_mod_eq_div_mult)
  then show ?thesis by (simp add: Truncate_def Hour_def Second_def)
qed

lemma Truncate_Hour_local:
  assumes "offset t mod 3600 = 0"
  shows "Truncate t Hour = local_hour_start t"
proof -
  from assms obtain q where q: "offset t = 3600 * q" by (auto simp: mod_eq_0_iff_dvd)
  have "(instant t div Second + offset t) div 3600 = instant t div Second div 3600 + q"
    by (simp add: q)
  then have "((instant t div Second + offset t) div 3600 * 3600 - offset t) * Second
      = (instant t div Second div 3600) * (3600 * Second)"
    by (simp add: q algebra_simps)
  also have "instant t div Second div 3600 = instant t div Hour"
    by (simp add: Hour_def Second_def div_mult2_eq)
  also have "3600 * Second = Hour"
    by (simp add: Hour_def)
  finally have "((instant t div Second + offset t) div 3600 * 3600 - offset t) * Second
      = (instant t div Hour) * Hour" .
  then show ?thesis
    by (simp only: Truncate_Hour local_hour_start_def)
qed

text \<open>
  Claim C4, as the code has it. Let \<open>ks\<close> be the order in which the result loop visits
  the keys of \<open>hourMap\<close>. Then \<open>aggregateByHour\<close> returns one bucket per key, in that
  order; the keys are pairwise different and are exactly the keys of the input records,
  so every record belongs to exactly one returned bucket and no bucket is empty. A
  bucket carries the number of records of its key and the sum of their sizes in wrapping
  64-bit arithmetic. The key of a record is its timestamp rounded down to a multiple of
  one hour of absolute time, printed at the timestamp's own offset; this is the start
  of the clock hour at that offset whenever the offset is a whole number of hours.
  Permuting the input changes neither the keys nor any bucket.
\<close>

theorem C4_aggregateByHour_buckets:
  assumes "map_iteration (fill_hourMap logs Map.empty) ks"
  shows "aggregateByHour ks logs = map (hour_bucket logs) ks \<and>
     distinct ks \<and> set ks = hourKey ` set logs \<and>
     (\<forall>l\<in>set logs. \<exists>!p. p \<in> set (aggregateByHour ks logs) \<and>
        TimeSeriesPoint.Timestamp p = hourKey l) \<and>
     (\<forall>p\<in>set (aggregateByHour ks logs). 1 \<le> TimeSeriesPoint.Count p) \<and>
     (\<forall>l\<in>set logs.
        hourKey l = Format_RFC3339 (Truncate (Timestamp l) Hour) \<and>
        instant (Truncate (Timestamp l) Hour) = (instant (Timestamp l) div Hour) * Hour \<and>
        offset (Truncate (Timestamp l) Hour) = offset (Timestamp l) \<and>
        (offset (Timestamp l) mod 3600 = 0 \<longrightarrow>
           Truncate (Timestamp l) Hour = local_hour_start (Timestamp l))) \<and>
     (\<forall>logs'. mset logs' = mset logs \<longrightarrow>
        map_iteration (fill_hourMap logs' Map.empty) ks \<and>
        aggregateByHour ks logs' = aggregateByHour ks logs)"
proof -
  have res: "aggregateByHour ks logs = map (hour_bucket logs) ks"
    by (rule aggregateByHour_eq [OF assms])
  from assms have dist: "distinct ks" and keys: "set ks = hourKey ` set logs"
    by (simp_all add: map_iteration_fill)
  have ts: "TimeSeriesPoint.Timestamp (hour_bucket logs k) = k" for k
    by (simp add: hour_bucket_def)
  have one: "\<forall>l\<in>set logs. \<exists>!p. p \<in> set (aggregateByHour ks logs) \<and>
        TimeSeriesPoint.Timestamp p = hourKey l"
  proof
    fix l assume "l \<in> set logs"
    then have "hourKey l \<in> set ks" by (simp add: keys)
    then have "hour_bucket logs (hourKey l) \<in> set (aggregateByHour ks logs)"
      by (simp add: res)
    moreover have "p = hour_bucket logs (hourKey l)"
      if "p \<in> set (aggregateByHour ks logs)" "TimeSeriesPoint.Timestamp p = hourKey l" for p
    proof -
      from that(1) obtain k where "p = hour_bucket logs k" by (auto simp: res)
      with that(2) show ?thesis by (simp add: ts)
    qed
    ultimately show "\<exists>!p. p \<in> set (aggregateByHour ks logs) \<and>
        TimeSeriesPoint.Timestamp p = hourKey l"
      using ts by blast
  qed
  have nonempty: "\<forall>p\<in>set (aggregateByHour ks logs). 1 \<le> TimeSeriesPoint.Count p"
  proof
    fix p assume "p \<in> set (aggregateByHour ks logs)"
    then obtain k where k: "k \<in> set ks" "p = hour_bucket logs k" by (auto simp: res)
    from k(1) have "hour_logs k logs \<noteq> []" by (simp add: keys hour_logs_empty_iff)
    with k(2) show "1 \<le> TimeSeriesPoint.Count p"
      by (cases "hour_logs k logs") (simp_all add: hour_bucket_def)
  qed
  have hour: "\<forall>l\<in>set logs.
        hourKey l = Format_RFC3339 (Truncate (Timestamp l) Hour) \<and>
        instant (Truncate (Timestamp l) Hour) = (instant (Timestamp l) div Hour) * Hour \<and>
        offset (Truncate (Timestamp l) Hour) = offset (Timestamp l) \<and>
        (offset (Timestamp l) mod 3600 = 0 \<longrightarrow>
           Truncate (Timestamp l) Hour = local_hour_start (Timestamp l))"
  proof (intro ballI conjI impI)
    fix l
    show "hourKey l = Format_RFC3339 (Truncate (Timestamp l) Hour)"
      by (simp add: hourKey_def)
    show "instant (Truncate (Timestamp l) Hour) = (instant (Timestamp l) div Hour) * Hour"
      by (simp add: Truncate_Hour)
    show "offset (Truncate (Timestamp l) Hour) = offset (Timestamp l)"
      by (simp add: Truncate_Hour)
    assume "offset (Timestamp l) mod 3600 = 0"
    then show "Truncate (Timestamp l) Hour = local_hour_start (Timestamp l)"
      by (rule Truncate_Hour_local)
  qed
  have perm: "\<forall>logs'. mset logs' = mset logs \<longrightarrow>
        map_iteration (fill_hourMap logs' Map.empty) ks \<and>
        aggregateByHour ks logs' = aggregateByHour ks logs"
  proof (intro allI impI)
    fix logs' assume m: "mset logs' = mset logs"
    then have "set logs' = set logs" by (rule mset_eq_setD)
    with dist keys have it: "map_iteration (fill_hourMap logs' Map.empty) ks"
      by (simp add: map_iteration_fill)
    have "map (hour_bucket logs') ks = map (hour_bucket logs) ks"
      by (simp add: hour_bucket_mset [OF m])
    with it show "map_iteration (fill_hourMap logs' Map.empty) ks \<and>
        aggregateByHour ks logs' = aggregateByHour ks logs"
      by (simp add: aggregateByHour_eq res)
  qed
  show ?thesis
    by (intro conjI) (rule res dist keys one nonempty hour perm)+
qed

text \<open>
  The case of the specification: records at 10:00:00 and 10:30:00 UTC of size 1500
  each merge into one bucket with count 2 and total 3000; a record at 11:00:00 starts
  the next bucket.
\<close>

theorem C4_aggregateByHour_witness:
  "map_iteration
     (fill_hourMap
        [\<lparr>ID = 1, Timestamp = \<lparr>instant = 63840909600 * Second, offset = 0\<rparr>, Filesize = 1500\<rparr>,
         \<lparr>ID = 2, Timestamp = \<lparr>instant = 63840911400 * Second, offset = 0\<rparr>, Filesize = 1500\<rparr>,
         \<lparr>ID = 3, Timestamp = \<lparr>instant = 63840913200 * Second, offset = 0\<rparr>, Filesize = 700\<rparr>]
        Map.empty)
     [''2024-01-15T11:00:00Z'', ''2024-01-15T10:00:00Z''] \<and>
   aggregateByHour [''2024-01-15T11:00:00Z'', ''2024-01-15T10:00:00Z'']
     [\<lparr>ID = 1, Timestamp = \<lparr>instant = 63840909600 * Second, offset = 0\<rparr>, Filesize = 1500\<rparr>,
      \<lparr>ID = 2, Timestamp = \<lparr>instant = 63840911400 * Second, offset = 0\<rparr>, Filesize = 1500\<rparr>,
      \<lparr>ID = 3, Timestamp = \<lparr>instant = 63840913200 * Second, offset = 0\<rparr>, Filesize = 700\<rparr>]
   = [\<lparr>TimeSeriesPoint.Timestamp = ''2024-01-15T11:00:00Z'', TimeSeriesPoint.Count = 1,
       TimeSeriesPoint.TotalSize = 700\<rparr>,
      \<lparr>TimeSeriesPoint.Timestamp = ''2024-01-15T10:00:00Z'', TimeSeriesPoint.Count = 2,
       TimeSeriesPoint.TotalSize = 3000\<rparr>]"
proof -
  let ?l1 = "\<lparr>ID = 1, Timestamp = \<lparr>instant = 63840909600 * Second, offset = 0\<rparr>, Filesize = 1500\<rparr>"
  let ?l2 = "\<lparr>ID = 2, Timestamp = \<lparr>instant = 63840911400 * Second, offset = 0\<rparr>, Filesize = 1500\<rparr>"
  let ?l3 = "\<lparr>ID = 3, Timestamp = \<lparr>instant = 63840913200 * Second, offset = 0\<rparr>, Filesize = 700\<rparr>"
  let ?ks = "[''2024-01-15T11:00:00Z'', ''2024-01-15T10:00:00Z'']"
  have k1: "hourKey ?l1 = ''2024-01-15T10:00:00Z''" by code_simp
  have k2: "hourKey ?l2 = ''2024-01-15T10:00:00Z''" by code_simp
  have k3: "hourKey ?l3 = ''2024-01-15T11:00:00Z''" by code_simp
  have it: "map_iteration (fill_hourMap [?l1, ?l2, ?l3] Map.empty) ?ks"
    by (simp only: map_iteration_fill) (auto simp: k1 k2 k3)
  from C4_aggregateByHour_buckets [OF it]
  have "aggregateByHour ?ks [?l1, ?l2, ?l3] = map (hour_bucket [?l1, ?l2, ?l3]) ?ks"
    by (rule conjunct1)
  then have r: "aggregateByHour ?ks [?l1, ?l2, ?l3]
     = [\<lparr>TimeSeriesPoint.Timestamp = ''2024-01-15T11:00:00Z'', TimeSeriesPoint.Count = 1,
         TimeSeriesPoint.TotalSize = 700\<rparr>,
        \<lparr>TimeSeriesPoint.Timestamp = ''2024-01-15T10:00:00Z'', TimeSeriesPoint.Count = 2,
         TimeSeriesPoint.TotalSize = 3000\<rparr>]"
    by (simp add: hour_bucket_def hour_logs_def k1 k2 k3)
  show ?thesis by (rule conjI [OF it r])
qed

text \<open>
  Claim C4 as stated fails. Two records at 10:15 and 10:45 on a clock at offset +05:30
  lie in the same clock hour, which starts at 10:00; yet \<open>Truncate\<close> works on absolute
  time, so their keys are 09:30 and 10:30 at that offset and they land in two buckets.
  And sizes \<open>2^63 - 1\<close> and \<open>1\<close> in one bucket give the total \<open>-2^63\<close>, not \<open>2^63\<close>.
\<close>

theorem C4_aggregateByHour_counterexample:
  "map_iteration
     (fill_hourMap
        [\<lparr>ID = 1, Timestamp = \<lparr>instant = 63840890700 * Second, offset = 19800\<rparr>, Filesize = 1500\<rparr>,
         \<lparr>ID = 2, Timestamp = \<lparr>instant = 63840892500 * Second, offset = 19800\<rparr>, Filesize = 1500\<rparr>]
        Map.empty)
     [''2024-01-15T09:30:00+05:30'', ''2024-01-15T10:30:00+05:30''] \<and>
   aggregateByHour [''2024-01-15T09:30:00+05:30'', ''2024-01-15T10:30:00+05:30'']
     [\<lparr>ID = 1, Timestamp = \<lparr>instant = 63840890700 * Second, offset = 19800\<rparr>, Filesize = 1500\<rparr>,
      \<lparr>ID = 2, Timestamp = \<lparr>instant = 63840892500 * Second, offset = 19800\<rparr>, Filesize = 1500\<rparr>]
   = [\<lparr>TimeSeriesPoint.Timestamp = ''2024-01-15T09:30:00+05:30'', TimeSeriesPoint.Count = 1,
       TimeSeriesPoint.TotalSize = 1500\<rparr>,
      \<lparr>TimeSeriesPoint.Timestamp = ''2024-01-15T10:30:00+05:30'', TimeSeriesPoint.Count = 1,
       TimeSeriesPoint.TotalSize = 1500\<rparr>] \<and>
   Format_RFC3339 \<lparr>instant = 63840890700 * Second, offset = 19800\<rparr>
     = ''2024-01-15T10:15:00+05:30'' \<and>
   Format_RFC3339 \<lparr>instant = 63840892500 * Second, offset = 19800\<rparr>
     = ''2024-01-15T10:45:00+05:30'' \<and>
   Format_RFC3339 (local_hour_start \<lparr>instant = 63840890700 * Second, offset = 19800\<rparr>)
     = ''2024-01-15T10:00:00+05:30'' \<and>
   Format_RFC3339 (local_hour_start \<lparr>instant = 63840892500 * Second, offset = 19800\<rparr>)
     = ''2024-01-15T10:00:00+05:30'' \<and>
   aggregateByHour [''2024-01-15T05:00:00Z'']
     [\<lparr>ID = 1, Timestamp = \<lparr>instant = 63840892500 * Second, offset = 0\<rparr>,
        Filesize = 9223372036854775807\<rparr>,
      \<lparr>ID = 2, Timestamp = \<lparr>instant = 63840892500 * Second, offset = 0\<rparr>, Filesize = 1\<rparr>]
   = [\<lparr>TimeSeriesPoint.Timestamp = ''2024-01-15T05:00:00Z'', TimeSeriesPoint.Count = 2,
       TimeSeriesPoint.TotalSize = - 9223372036854775808\<rparr>] \<and>
   sint (- 9223372036854775808 :: int64) = - 9223372036854775808"
proof -
  let ?l1 = "\<lparr>ID = 1, Timestamp = \<lparr>instant = 63840890700 * Second, offset = 19800\<rparr>, Filesize = 1500\<rparr>"
  let ?l2 = "\<lparr>ID = 2, Timestamp = \<lparr>instant = 63840892500 * Second, offset = 19800\<rparr>, Filesize = 1500\<rparr>"
  let ?b1 = "\<lparr>ID = 1, Timestamp = \<lparr>instant = 63840892500 * Second, offset = 0\<rparr>,
        Filesize = 9223372036854775807\<rparr>"
  let ?b2 = "\<lparr>ID = 2, Timestamp = \<lparr>instant = 63840892500 * Second, offset = 0\<rparr>, Filesize = 1\<rparr>"
  let ?ks = "[''2024-01-15T09:30:00+05:30'', ''2024-01-15T10:30:00+05:30'']"
  have k1: "hourKey ?l1 = ''2024-01-15T09:30:00+05:30''" by code_simp
  have k2: "hourKey ?l2 = ''2024-01-15T10:30:00+05:30''" by code_simp
  have k3: "hourKey ?b1 = ''2024-01-15T05:00:00Z''" by code_simp
  have k4: "hourKey ?b2 = ''2024-01-15T05:00:00Z''" by code_simp
  have it: "map_iteration (fill_hourMap [?l1, ?l2] Map.empty) ?ks"
    by (simp only: map_iteration_fill) (auto simp: k1 k2)
  have it2: "map_iteration (fill_hourMap [?b1, ?b2] Map.empty) [''2024-01-15T05:00:00Z'']"
    by (simp only: map_iteration_fill) (auto simp: k3 k4)
  have r1: "aggregateByHour ?ks [?l1, ?l2]
     = [\<lparr>TimeSeriesPoint.Timestamp = ''2024-01-15T09:30:00+05:30'', TimeSeriesPoint.Count = 1,
         TimeSeriesPoint.TotalSize = 1500\<rparr>,
        \<lparr>TimeSeriesPoint.Timestamp = ''2024-01-15T10:30:00+05:30'', TimeSeriesPoint.Count = 1,
         TimeSeriesPoint.TotalSize = 1500\<rparr>]"
    by (simp add: aggregateByHour_eq [OF it] hour_bucket_def hour_logs_def k1 k2)
  have r2: "aggregateByHour [''2024-01-15T05:00:00Z''] [?b1, ?b2]
     = [\<lparr>TimeSeriesPoint.Timestamp = ''2024-01-15T05:00:00Z'', TimeSeriesPoint.Count = 2,
         TimeSeriesPoint.TotalSize = - 9223372036854775808\<rparr>]"
    by (simp add: aggregateByHour_eq [OF it2] hour_bucket_def hour_logs_def k3 k4)
  have f1: "Format_RFC3339 \<lparr>instant = 63840890700 * Second, offset = 19800\<rparr>
     = ''2024-01-15T10:15:00+05:30''" by code_simp
  have f2: "Format_RFC3339 \<lparr>instant = 63840892500 * Second, offset = 19800\<rparr>
     = ''2024-01-15T10:45:00+05:30''" by code_simp
  have f3: "Format_RFC3339 (local_hour_start \<lparr>instant = 63840890700 * Second, offset = 19800\<rparr>)
     = ''2024-01-15T10:00:00+05:30''" by code_simp
  have f4: "Format_RFC3339 (local_hour_start \<lparr>instant = 63840892500 * Second, offset = 19800\<rparr>)
     = ''2024-01-15T10:00:00+05:30''" by code_simp
  have s1: "sint (- 9223372036854775808 :: int64) = - 9223372036854775808"
    by code_simp
  show ?thesis
    by (intro conjI) (rule it r1 f1 f2 f3 f4 r2 s1)+
qed

section \<open>No analytics function fails\<close>

text \<open>
  Claim C7. On the empty input \<open>calculateStats\<close> returns the zero value of
  \<open>LogSizeStats\<close>: every number 0 and the empty string for the timestamp. On every
  input \<open>calculateStats\<close> and \<open>calculateSizeBreakdown\<close> return a result and do not
  panic. \<open>aggregateByHour\<close> contains no operation that can panic: it returns no
  bucket on the empty input, and on every input, visiting the keys in order of first
  appearance, one bucket per key.
\<close>

theorem C7_analytics_never_fail:
  "calculateStats [] =
     Inr \<lparr>TotalRecords = 0, TotalSize = 0, AverageSize = 0, MinSize = 0, MaxSize = 0,
          LastUpdated = ''''\<rparr> \<and>
   (\<exists>s. calculateStats logs = Inr s) \<and>
   (\<exists>bs. calculateSizeBreakdown logs = Inr bs \<and> length bs = 6) \<and>
   aggregateByHour ks [] = [] \<and>
   aggregateByHour (remdups (map hourKey logs)) logs =
     map (hour_bucket logs) (remdups (map hourKey logs))"
proof (intro conjI)
  show "calculateStats [] =
     Inr \<lparr>TotalRecords = 0, TotalSize = 0, AverageSize = 0, MinSize = 0, MaxSize = 0,
          LastUpdated = ''''\<rparr>"
    by (simp add: calculateStats_def)
  show "\<exists>s. calculateStats logs = Inr s"
  proof (cases "logs = []")
    case True
    then show ?thesis by (simp add: calculateStats_def)
  next
    case False
    then show ?thesis by (simp add: calculateStats_eq)
  qed
  show "\<exists>bs. calculateSizeBreakdown logs = Inr bs \<and> length bs = 6"
    by (simp add: calculateSizeBreakdown_six)
  show "aggregateByHour ks [] = []"
    by (simp add: aggregateByHour_def range_map_def map_filter_def)
  show "aggregateByHour (remdups (map hourKey logs)) logs =
     map (hour_bucket logs) (remdups (map hourKey logs))"
    by (rule aggregateByHour_eq [OF map_iteration_exists])
qed

theorem C7_analytics_never_fail_witness:
  "calculateStats [] =
     Inr \<lparr>TotalRecords = 0, TotalSize = 0, AverageSize = 0, MinSize = 0, MaxSize = 0,
          LastUpdated = ''''\<rparr> \<and>
   (\<exists>s. calculateStats [\<lparr>ID = 1, Timestamp = zeroTime, Filesize = - 1\<rparr>] = Inr s) \<and>
   (\<exists>bs. calculateSizeBreakdown [\<lparr>ID = 1, Timestamp = zeroTime, Filesize = - 1\<rparr>] = Inr bs \<and>
      length bs = 6) \<and>
   aggregateByHour [''a''] [] = [] \<and>
   aggregateByHour (remdups (map hourKey [\<lparr>ID = 1, Timestamp = zeroTime, Filesize = - 1\<rparr>]))
       [\<lparr>ID = 1, Timestamp = zeroTime, Filesize = - 1\<rparr>] =
     map (hour_bucket [\<lparr>ID = 1, Timestamp = zeroTime, Filesize = - 1\<rparr>])
       (remdups (map hourKey [\<lparr>ID = 1, Timestamp = zeroTime, Filesize = - 1\<rparr>]))"
  by (rule C7_analytics_never_fail)

section \<open>Properties of the store\<close>

lemma db_invariant_new: "db_invariant NewSQLiteController"
  by (simp add: db_invariant_def NewSQLiteController_def)

lemma InsertLogSize_Inr:
  assumes "InsertLogSize now filesize c = Inr c'"
  shows "\<not> closed c" and "sqlite_sequence c < 2 ^ 63 - 1"
    and "c' = c\<lparr>log_sizes :=
                   log_sizes c @
                     [\<lparr>ID = sqlite_sequence c + 1, Timestamp = now, Filesize = filesize\<rparr>],
                 sqlite_sequence := sqlite_sequence c + 1\<rparr>"
  using assms by (auto simp: InsertLogSize_def split: if_splits)

lemma InsertLogSize_invariant:
  assumes "db_invariant c" and "InsertLogSize now filesize c = Inr c'"
  shows "db_invariant c'"
proof -
  note ins = InsertLogSize_Inr [OF assms(2)]
  from assms(1) have s: "sorted_wrt (<) (map ID (log_sizes c))"
    and b: "\<forall>l\<in>set (log_sizes c). ID l \<le> sqlite_sequence c"
    by (simp_all add: db_invariant_def list_all_iff)
  from b have "\<forall>x\<in>set (map ID (log_sizes c)). x < sqlite_sequence c + 1" by auto
  with s have "sorted_wrt (<) (map ID (log_sizes c) @ [sqlite_sequence c + 1])"
    by (simp add: sorted_wrt_append)
  moreover from b have "\<forall>l\<in>set (log_sizes c). ID l \<le> sqlite_sequence c + 1" by auto
  ultimately show ?thesis
    by (simp add: ins(3) db_invariant_def list_all_iff)
qed

lemma GetAll_invariant:
  assumes "db_invariant c" and "\<not> closed c"
  shows "GetAll c = Inr (log_sizes c)"
proof -
  from assms(1) have "sorted_wrt (<) (map ID (log_sizes c))"
    by (simp add: db_invariant_def)
  then have "sorted (map ID (log_sizes c))"
    by (rule strict_sorted_imp_sorted)
  then have "sort_key ID (log_sizes c) = log_sizes c"
    by (rule sort_key_id_if_sorted)
  with assms(2) show ?thesis by (simp add: GetAll_def)
qed

lemma inserts_appends:
  assumes "db_invariant c" and "inserts xs c = Inr c'"
  shows "db_invariant c' \<and> closed c' = closed c \<and>
     (\<exists>new. log_sizes c' = log_sizes c @ new \<and>
        map (\<lambda>l. (Timestamp l, Filesize l)) new = xs)"
  using assms
proof (induction xs arbitrary: c)
  case Nil
  then show ?case by simp
next
  case (Cons x xs)
  obtain now filesize where x: "x = (now, filesize)" by (cases x)
  from Cons.prems(2) have "\<exists>c1. InsertLogSize now filesize c = Inr c1 \<and> inserts xs c1 = Inr c'"
    unfolding x by (cases "InsertLogSize now filesize c") simp_all
  then obtain c1 where c1: "InsertLogSize now filesize c = Inr c1"
    and rest: "inserts xs c1 = Inr c'"
    by (elim exE conjE)
  note ins = InsertLogSize_Inr [OF c1]
  have inv1: "db_invariant c1"
    by (rule InsertLogSize_invariant [OF Cons.prems(1) c1])
  from Cons.IH [OF inv1 rest] obtain new where
    inv: "db_invariant c'" and cl: "closed c' = closed c1"
    and rows: "log_sizes c' = log_sizes c1 @ new"
    and vals: "map (\<lambda>l. (Timestamp l, Filesize l)) new = xs"
    by (elim exE conjE)
  let ?row = "\<lparr>ID = sqlite_sequence c + 1, Timestamp = now, Filesize = filesize\<rparr>"
  have rows1: "log_sizes c1 = log_sizes c @ [?row]" and cl1: "closed c1 = closed c"
    by (simp_all add: ins(3))
  show ?case
  proof (intro conjI exI)
    show "db_invariant c'" by (rule inv)
    show "closed c' = closed c" by (simp only: cl cl1)
    show "log_sizes c' = log_sizes c @ (?row # new)" by (simp add: rows rows1)
    show "map (\<lambda>l. (Timestamp l, Filesize l)) (?row # new) = x # xs" by (simp add: vals x)
  qed
qed

lemma inserts_succeed:
  "\<not> closed c \<Longrightarrow> sqlite_sequence c + int (length xs) \<le> 2 ^ 63 - 1 \<Longrightarrow>
   \<exists>c'. inserts xs c = Inr c'"
proof (induction xs arbitrary: c)
  case Nil
  then show ?case by simp
next
  case (Cons x xs)
  obtain now filesize where x: "x = (now, filesize)" by (cases x)
  let ?c1 = "c\<lparr>log_sizes :=
                 log_sizes c @
                   [\<lparr>ID = sqlite_sequence c + 1, Timestamp = now, Filesize = filesize\<rparr>],
               sqlite_sequence := sqlite_sequence c + 1\<rparr>"
  from Cons.prems have c1: "InsertLogSize now filesize c = Inr ?c1"
    by (simp add: InsertLogSize_def)
  from Cons.prems have "\<not> closed ?c1" "sqlite_sequence ?c1 + int (length xs) \<le> 2 ^ 63 - 1"
    by simp_all
  from Cons.IH [OF this] show ?case
    by (simp add: x c1)
qed



text \<open>
  Claim C5. Starting from a store that satisfies the invariant of the table and is open,
  let a sequence of \<open>InsertLogSize\<close> calls, issued one at a time, all succeed. Then
  \<open>GetAll\<close> returns the rows that were there before followed by one row per call, in
  the order of the calls and with the timestamp and size of each call, and the ids of
  all rows ascend strictly in that order.
\<close>

theorem C5_insertion_order:
  assumes "db_invariant c" and "\<not> closed c" and "inserts xs c = Inr c'"
  shows "\<exists>new. GetAll c' = Inr (log_sizes c @ new) \<and>
     map (\<lambda>l. (Timestamp l, Filesize l)) new = xs \<and>
     sorted_wrt (<) (map ID (log_sizes c @ new))"
proof -
  from inserts_appends [OF assms(1,3)] obtain new where
    inv: "db_invariant c'" and cl: "closed c' = closed c"
    and rows: "log_sizes c' = log_sizes c @ new"
    and vals: "map (\<lambda>l. (Timestamp l, Filesize l)) new = xs"
    by (elim exE conjE)
  from cl assms(2) have "\<not> closed c'" by simp
  with inv have "GetAll c' = Inr (log_sizes c')" by (rule GetAll_invariant)
  then have all: "GetAll c' = Inr (log_sizes c @ new)" by (simp only: rows)
  from inv have "sorted_wrt (<) (map ID (log_sizes c'))" by (simp add: db_invariant_def)
  then have ids: "sorted_wrt (<) (map ID (log_sizes c @ new))" by (simp only: rows)
  show ?thesis
    by (rule exI [of _ new]) (intro conjI all vals ids)
qed

text \<open>
  Three inserts of sizes 100, 200 and 300 into a new store: ids 1, 2 and 3 in that
  order.
\<close>

theorem C5_insertion_order_witness:
  "db_invariant NewSQLiteController \<and> \<not> closed NewSQLiteController \<and>
   inserts
     [(\<lparr>instant = 63840906000 * Second, offset = 0\<rparr>, 100),
      (\<lparr>instant = 63840909600 * Second, offset = 0\<rparr>, 200),
      (\<lparr>instant = 63840913200 * Second, offset = 0\<rparr>, 300)] NewSQLiteController
    = Inr \<lparr>log_sizes =
         [\<lparr>ID = 1, Timestamp = \<lparr>instant = 63840906000 * Second, offset = 0\<rparr>, Filesize = 100\<rparr>,
          \<lparr>ID = 2, Timestamp = \<lparr>instant = 63840909600 * Second, offset = 0\<rparr>, Filesize = 200\<rparr>,
          \<lparr>ID = 3, Timestamp = \<lparr>instant = 63840913200 * Second, offset = 0\<rparr>, Filesize = 300\<rparr>],
       sqlite_sequence = 3, closed = False\<rparr> \<and>
   (\<exists>new. GetAll \<lparr>log_sizes =
         [\<lparr>ID = 1, Timestamp = \<lparr>instant = 63840906000 * Second, offset = 0\<rparr>, Filesize = 100\<rparr>,
          \<lparr>ID = 2, Timestamp = \<lparr>instant = 63840909600 * Second, offset = 0\<rparr>, Filesize = 200\<rparr>,
          \<lparr>ID = 3, Timestamp = \<lparr>instant = 63840913200 * Second, offset = 0\<rparr>, Filesize = 300\<rparr>],
       sqlite_sequence = 3, closed = False\<rparr> = Inr new \<and>
      map (\<lambda>l. (Timestamp l, Filesize l)) new =
        [(\<lparr>instant = 63840906000 * Second, offset = 0\<rparr>, 100),
         (\<lparr>instant = 63840909600 * Second, offset = 0\<rparr>, 200),
         (\<lparr>instant = 63840913200 * Second, offset = 0\<rparr>, 300)] \<and>
      sorted_wrt (<) (map ID new))"
proof -
  let ?xs = "[(\<lparr>instant = 63840906000 * Second, offset = 0\<rparr>, 100 :: int64),
      (\<lparr>instant = 63840909600 * Second, offset = 0\<rparr>, 200),
      (\<lparr>instant = 63840913200 * Second, offset = 0\<rparr>, 300)]"
  let ?c' = "\<lparr>log_sizes =
         [\<lparr>ID = 1, Timestamp = \<lparr>instant = 63840906000 * Second, offset = 0\<rparr>, Filesize = 100\<rparr>,
          \<lparr>ID = 2, Timestamp = \<lparr>instant = 63840909600 * Second, offset = 0\<rparr>, Filesize = 200\<rparr>,
          \<lparr>ID = 3, Timestamp = \<lparr>instant = 63840913200 * Second, offset = 0\<rparr>, Filesize = 300\<rparr>],
       sqlite_sequence = 3, closed = False\<rparr>"
  have inv: "db_invariant NewSQLiteController"
    by (rule db_invariant_new)
  have op: "\<not> closed NewSQLiteController"
    by (simp add: NewSQLiteController_def)
  have run: "inserts ?xs NewSQLiteController = Inr ?c'"
    by (simp add: InsertLogSize_def NewSQLiteController_def)
  from C5_insertion_order [OF inv op run]
  have "\<exists>new. GetAll ?c' = Inr new \<and>
      map (\<lambda>l. (Timestamp l, Filesize l)) new = ?xs \<and> sorted_wrt (<) (map ID new)"
    by (simp add: NewSQLiteController_def)
  with inv op run show ?thesis by (intro conjI)
qed

text \<open>
  Claim C8, as the code has it. \<open>InsertLogSize\<close> does not look at the sign of its
  argument. On an open store whose ids are not used up it succeeds for every 64-bit
  size, negative ones included, and the row it adds carries exactly that size, as the
  next \<open>GetAll\<close> shows.
\<close>

theorem C8_insert_accepts_any_size:
  assumes "db_invariant c" and "\<not> closed c" and "sqlite_sequence c < 2 ^ 63 - 1"
  shows "\<exists>c'. InsertLogSize now filesize c = Inr c' \<and>
     GetAll c' =
       Inr (log_sizes c @
              [\<lparr>ID = sqlite_sequence c + 1, Timestamp = now, Filesize = filesize\<rparr>])"
proof -
  let ?c' = "c\<lparr>log_sizes :=
                 log_sizes c @
                   [\<lparr>ID = sqlite_sequence c + 1, Timestamp = now, Filesize = filesize\<rparr>],
               sqlite_sequence := sqlite_sequence c + 1\<rparr>"
  from assms(2,3) have ins: "InsertLogSize now filesize c = Inr ?c'"
    by (simp add: InsertLogSize_def)
  have inv: "db_invariant ?c'"
    by (rule InsertLogSize_invariant [OF assms(1) ins])
  from assms(2) have "\<not> closed ?c'" by simp
  with inv have "GetAll ?c' = Inr (log_sizes ?c')" by (rule GetAll_invariant)
  then have "GetAll ?c' =
      Inr (log_sizes c @ [\<lparr>ID = sqlite_sequence c + 1, Timestamp = now, Filesize = filesize\<rparr>])"
    by simp
  with ins show ?thesis by (intro exI conjI)
qed

theorem C8_insert_accepts_any_size_witness:
  "db_invariant NewSQLiteController \<and> \<not> closed NewSQLiteController \<and>
   sqlite_sequence NewSQLiteController < 2 ^ 63 - 1 \<and>
   (\<exists>c'. InsertLogSize \<lparr>instant = 63840892500 * Second, offset = 0\<rparr> (- 5) NewSQLiteController
        = Inr c' \<and>
      GetAll c' =
        Inr [\<lparr>ID = 1, Timestamp = \<lparr>instant = 63840892500 * Second, offset = 0\<rparr>,
               Filesize = - 5\<rparr>])"
proof -
  have inv: "db_invariant NewSQLiteController"
    by (rule db_invariant_new)
  have op: "\<not> closed NewSQLiteController"
    and seq: "sqlite_sequence NewSQLiteController < 2 ^ 63 - 1"
    by (simp_all add: NewSQLiteController_def)
  from C8_insert_accepts_any_size [OF inv op seq,
      of "\<lparr>instant = 63840892500 * Second, offset = 0\<rparr>" "- 5"]
  have "\<exists>c'. InsertLogSize \<lparr>instant = 63840892500 * Second, offset = 0\<rparr> (- 5) NewSQLiteController
        = Inr c' \<and>
      GetAll c' =
        Inr [\<lparr>ID = 1, Timestamp = \<lparr>instant = 63840892500 * Second, offset = 0\<rparr>,
               Filesize = - 5\<rparr>]"
    by (simp add: NewSQLiteController_def)
  with inv op seq show ?thesis by (intro conjI)
qed

text \<open>
  Claim C8 as stated fails: inserting the negative size \<open>-1\<close> into a new store returns
  no error and persists a row of size \<open>-1\<close>, which \<open>GetAll\<close> then returns.
\<close>

theorem C8_insert_negative_counterexample:
  "(- 1 :: int64) <s 0 \<and>
   InsertLogSize \<lparr>instant = 63840892500 * Second, offset = 0\<rparr> (- 1) NewSQLiteController
    = Inr \<lparr>log_sizes =
             [\<lparr>ID = 1, Timestamp = \<lparr>instant = 63840892500 * Second, offset = 0\<rparr>,
                Filesize = - 1\<rparr>],
           sqlite_sequence = 1, closed = False\<rparr> \<and>
   GetAll \<lparr>log_sizes =
             [\<lparr>ID = 1, Timestamp = \<lparr>instant = 63840892500 * Second, offset = 0\<rparr>,
                Filesize = - 1\<rparr>],
           sqlite_sequence = 1, closed = False\<rparr>
    = Inr [\<lparr>ID = 1, Timestamp = \<lparr>instant = 63840892500 * Second, offset = 0\<rparr>,
             Filesize = - 1\<rparr>]"
  by (simp add: InsertLogSize_def NewSQLiteController_def GetAll_def)

end
